theory Spec2Isabelle
  imports Main "HOL-Library.Sublist"
begin

section \<open>localMind: chunking, ingestion, retrieval and prompt assembly\<close>

text \<open>
  A shallow embedding of \<^verbatim>\<open>src/localmind/ingest.py\<close> and \<^verbatim>\<open>src/localmind/rag.py\<close>.

  Python strings are modelled as \<^typ>\<open>string\<close>; one \<^typ>\<open>char\<close> stands for one code
  point below 256, so \<^const>\<open>length\<close> is Python's \<^verbatim>\<open>len\<close> on such strings. Python
  integers are \<^typ>\<open>int\<close>, list positions and counters that only count up from zero are
  \<^typ>\<open>nat\<close>.
\<close>

subsection \<open>Strings\<close>

text \<open>
  \<^verbatim>\<open>str.isspace\<close>, \<^verbatim>\<open>str.strip()\<close> and the regular expression class \<^verbatim>\<open>\s\<close> agree on
  what a whitespace character is. Below code point 256 these are 9 to 13, 28 to 32, 133
  and 160.
\<close>

definition is_space :: "char \<Rightarrow> bool" where
  "is_space c = (let n = (of_char c :: nat) in
     (9 \<le> n \<and> n \<le> 13) \<or> (28 \<le> n \<and> n \<le> 32) \<or> n = 133 \<or> n = 160)"

text \<open>\<^verbatim>\<open>s.strip()\<close>\<close>

definition strip :: "string \<Rightarrow> string" where
  "strip s = rev (dropWhile is_space (rev (dropWhile is_space s)))"

text \<open>
  \<^verbatim>\<open>s.split(sep)\<close> for a separator that is not empty: the occurrences of \<open>sep\<close> are
  found from left to right and do not overlap; the result is never empty. (Python raises
  ValueError for an empty separator; the chunker only passes the three constants below.)
\<close>

fun split_on :: "string \<Rightarrow> string \<Rightarrow> string list" where
  "split_on sep [] = [[]]"
| "split_on sep (x # xs) =
     (if sep \<noteq> [] \<and> prefix sep (x # xs) then [] # split_on sep (drop (length sep - 1) xs)
      else (case split_on sep xs of [] \<Rightarrow> [[x]] | p # ps \<Rightarrow> (x # p) # ps))"

text \<open>\<^verbatim>\<open>re.split(r"\s+", s)\<close>: split at every maximal run of whitespace.\<close>

function split_ws :: "string \<Rightarrow> string list" where
  "split_ws [] = [[]]"
| "split_ws (x # xs) =
     (if is_space x then [] # split_ws (dropWhile is_space xs)
      else (case split_ws xs of [] \<Rightarrow> [[x]] | p # ps \<Rightarrow> (x # p) # ps))"
  by pat_completeness auto
termination
  by (relation "measure length") (auto simp: length_dropWhile_le less_Suc_eq_le)

text \<open>\<^verbatim>\<open>sep.join(xs)\<close>\<close>

fun join :: "string \<Rightarrow> string list \<Rightarrow> string" where
  "join sep [] = []"
| "join sep [x] = x"
| "join sep (x # y # ys) = x @ sep @ join sep (y # ys)"

text \<open>\<^verbatim>\<open>str(n)\<close> for an integer: decimal digits, with a minus sign when negative.\<close>

fun str_nat :: "nat \<Rightarrow> string" where
  "str_nat n =
     (if n < 10 then [char_of (48 + n)] else str_nat (n div 10) @ [char_of (48 + n mod 10)])"

declare str_nat.simps [simp del]

definition str_int :: "int \<Rightarrow> string" where
  "str_int i = (if i < 0 then ''-'' @ str_nat (nat (- i)) else str_nat (nat i))"

text \<open>
  \<^verbatim>\<open>s.lower()\<close> on code points below 256: the letters A to Z and the capital
  letters 192 to 222 (215, the multiplication sign, apart) move up by 32.
\<close>

definition lower_char :: "char \<Rightarrow> char" where
  "lower_char c = (let n = (of_char c :: nat) in
     if (65 \<le> n \<and> n \<le> 90) \<or> (192 \<le> n \<and> n \<le> 222 \<and> n \<noteq> 215) then char_of (n + 32) else c)"

definition lower :: "string \<Rightarrow> string" where
  "lower s = map lower_char s"

subsection \<open>The chunker\<close>

text \<open>
  \<^verbatim>\<open>overlap_start = "" if overlap <= 0 else current[-overlap:] if len(current) >= overlap else current\<close>
\<close>

definition overlap_start :: "int \<Rightarrow> string \<Rightarrow> string" where
  "overlap_start overlap current =
     (if overlap \<le> 0 then []
      else if int (length current) \<ge> overlap then drop (length current - nat overlap) current
      else current)"

text \<open>
  The loop \<^verbatim>\<open>for i, part in enumerate(parts)\<close> of \<^verbatim>\<open>_chunk_text\<close>, with \<open>n\<close> for
  \<^verbatim>\<open>len(parts)\<close> and \<open>current\<close> for the segment being filled. The result is what the
  loop, and the \<^verbatim>\<open>if current.strip()\<close> after it, append to \<^verbatim>\<open>new_chunks\<close>.
\<close>

fun pack_parts ::
  "int \<Rightarrow> int \<Rightarrow> string \<Rightarrow> nat \<Rightarrow> string \<Rightarrow> (nat \<times> string) list \<Rightarrow> string list" where
  "pack_parts chunk_size overlap sep n current [] =
     (if strip current \<noteq> [] then [strip current] else [])"
| "pack_parts chunk_size overlap sep n current ((i, part) # rest) =
     (let add = (if sep = '' '' then part else part @ (if i < n - 1 then sep else []))
      in if int (length current) + int (length add) \<le> chunk_size
         then pack_parts chunk_size overlap sep n (current @ add) rest
         else (if current \<noteq> [] then [strip current] else [])
              @ pack_parts chunk_size overlap sep n (overlap_start overlap current @ add) rest)"

text \<open>The body of \<^verbatim>\<open>for c in chunks\<close>: what one segment \<open>c\<close> adds to \<^verbatim>\<open>new_chunks\<close>.\<close>

definition split_chunk :: "int \<Rightarrow> int \<Rightarrow> string \<Rightarrow> string \<Rightarrow> string list" where
  "split_chunk chunk_size overlap sep c =
     (if int (length c) \<le> chunk_size then [c]
      else let parts = (if sep \<noteq> '' '' then split_on sep c else split_ws c)
           in pack_parts chunk_size overlap sep (length parts) [] (enumerate 0 parts))"

definition separators :: "string list" where
  "separators = [''\<newline>\<newline>'', ''\<newline>'', ''. '', '' '']"

text \<open>One pass of \<^verbatim>\<open>for sep in separators\<close>: \<^verbatim>\<open>chunks = new_chunks\<close>.\<close>

definition level :: "int \<Rightarrow> int \<Rightarrow> string list \<Rightarrow> string \<Rightarrow> string list" where
  "level chunk_size overlap chunks sep = concat (map (split_chunk chunk_size overlap sep) chunks)"

text \<open>\<^verbatim>\<open>_chunk_text(text, chunk_size, overlap)\<close>\<close>

definition chunk_text :: "string \<Rightarrow> int \<Rightarrow> int \<Rightarrow> string list" where
  "chunk_text text chunk_size overlap =
     (if text = [] \<or> strip text = [] then []
      else filter (\<lambda>c. strip c \<noteq> []) (foldl (level chunk_size overlap) [text] separators))"

subsection \<open>Predicates on chunks\<close>




definition starts_with_space :: "string \<Rightarrow> bool" where
  "starts_with_space c = (case c of [] \<Rightarrow> False | x # _ \<Rightarrow> is_space x)"

definition ends_with_space :: "string \<Rightarrow> bool" where
  "ends_with_space c = starts_with_space (rev c)"

text \<open>Trimmed: the string neither starts nor ends with a whitespace character.\<close>

definition trimmed :: "string \<Rightarrow> bool" where
  "trimmed c = (\<not> starts_with_space c \<and> \<not> ends_with_space c)"


subsection \<open>The chunker on marked characters\<close>

text \<open>
  To tell the characters that overlap seeding repeats from the characters of the input,
  the chunker is run a second time on marked characters: a character with the mark
  \<open>True\<close> is a copy made by \<^verbatim>\<open>overlap_start\<close>, one with the mark \<open>False\<close> stands at its
  own place of the input. Every test of the code looks at the characters only, never at
  the marks. A separator that \<^verbatim>\<open>part + sep\<close> puts back keeps the marks of the
  occurrence that \<^verbatim>\<open>split\<close> removed.
\<close>

type_synonym mstring = "(char \<times> bool) list"

definition unmarked :: "string \<Rightarrow> mstring" where
  "unmarked s = map (\<lambda>c. (c, False)) s"

definition plain :: "mstring \<Rightarrow> string" where
  "plain s = map fst s"

text \<open>
  The characters of a marked string that are neither copies made by overlap seeding nor
  whitespace, in their order.
\<close>

definition core :: "mstring \<Rightarrow> string" where
  "core s = map fst (filter (\<lambda>(c, d). \<not> d \<and> \<not> is_space c) s)"

definition m_strip :: "mstring \<Rightarrow> mstring" where
  "m_strip s = rev (dropWhile (is_space \<circ> fst) (rev (dropWhile (is_space \<circ> fst) s)))"

text \<open>The values of \<open>add\<close> at a separator level: each part with the separator after it.\<close>

fun m_pieces :: "string \<Rightarrow> mstring \<Rightarrow> mstring list" where
  "m_pieces sep [] = [[]]"
| "m_pieces sep (x # xs) =
     (if sep \<noteq> [] \<and> prefix sep (map fst (x # xs))
      then take (length sep) (x # xs) # m_pieces sep (drop (length sep - 1) xs)
      else (case m_pieces sep xs of [] \<Rightarrow> [[x]] | p # ps \<Rightarrow> (x # p) # ps))"

function m_words :: "mstring \<Rightarrow> mstring list" where
  "m_words [] = [[]]"
| "m_words (x # xs) =
     (if is_space (fst x) then [] # m_words (dropWhile (is_space \<circ> fst) xs)
      else (case m_words xs of [] \<Rightarrow> [[x]] | p # ps \<Rightarrow> (x # p) # ps))"
  by pat_completeness auto
termination
  by (relation "measure length") (auto simp: length_dropWhile_le less_Suc_eq_le)

definition m_overlap_start :: "int \<Rightarrow> mstring \<Rightarrow> mstring" where
  "m_overlap_start overlap current =
     map (\<lambda>(c, _). (c, True))
       (if overlap \<le> 0 then []
        else if int (length current) \<ge> overlap then drop (length current - nat overlap) current
        else current)"

fun m_pack :: "int \<Rightarrow> int \<Rightarrow> mstring \<Rightarrow> mstring list \<Rightarrow> mstring list" where
  "m_pack chunk_size overlap current [] =
     (if m_strip current \<noteq> [] then [m_strip current] else [])"
| "m_pack chunk_size overlap current (add # rest) =
     (if int (length current) + int (length add) \<le> chunk_size
      then m_pack chunk_size overlap (current @ add) rest
      else (if current \<noteq> [] then [m_strip current] else [])
           @ m_pack chunk_size overlap (m_overlap_start overlap current @ add) rest)"

definition m_split_chunk :: "int \<Rightarrow> int \<Rightarrow> string \<Rightarrow> mstring \<Rightarrow> mstring list" where
  "m_split_chunk chunk_size overlap sep c =
     (if int (length c) \<le> chunk_size then [c]
      else m_pack chunk_size overlap [] (if sep \<noteq> '' '' then m_pieces sep c else m_words c))"

definition m_level :: "int \<Rightarrow> int \<Rightarrow> mstring list \<Rightarrow> string \<Rightarrow> mstring list" where
  "m_level chunk_size overlap chunks sep =
     concat (map (m_split_chunk chunk_size overlap sep) chunks)"

definition m_chunk_text :: "mstring \<Rightarrow> int \<Rightarrow> int \<Rightarrow> mstring list" where
  "m_chunk_text text chunk_size overlap =
     (if text = [] \<or> m_strip text = [] then []
      else filter (\<lambda>c. m_strip c \<noteq> []) (foldl (m_level chunk_size overlap) [text] separators))"

text \<open>The values of \<open>add\<close> for the parts of a separator level, without the indices.\<close>

fun adds :: "string \<Rightarrow> string list \<Rightarrow> string list" where
  "adds sep [] = []"
| "adds sep [p] = [p]"
| "adds sep (p # q # ps) = (p @ sep) # adds sep (q # ps)"

text \<open>The value of \<open>add\<close> in the loop of the chunker, for the part at index \<open>i\<close> of \<open>n\<close>.\<close>

definition add_of :: "string \<Rightarrow> nat \<Rightarrow> nat \<times> string \<Rightarrow> string" where
  "add_of sep n ip = (case ip of (i, part) \<Rightarrow>
     if sep = '' '' then part else part @ (if i < n - 1 then sep else []))"

subsection \<open>Metadata\<close>

text \<open>
  A metadata value is a string (\<^verbatim>\<open>"source"\<close>) or an integer (\<^verbatim>\<open>"page"\<close>); a metadata
  dictionary maps keys to values.
\<close>

datatype pyval = PStr string | PInt int

type_synonym metadata = "string \<rightharpoonup> pyval"

text \<open>\<^verbatim>\<open>str(v)\<close>, as an f-string formats the value.\<close>

fun str_pyval :: "pyval \<Rightarrow> string" where
  "str_pyval (PStr s) = s"
| "str_pyval (PInt i) = str_int i"

text \<open>The truth value of \<^verbatim>\<open>m.get(k)\<close>: a missing key, an empty string and 0 are false.\<close>

fun truthy :: "pyval option \<Rightarrow> bool" where
  "truthy None = False"
| "truthy (Some (PStr s)) = (s \<noteq> [])"
| "truthy (Some (PInt i)) = (i \<noteq> 0)"

subsection \<open>Prompt assembly\<close>

text \<open>The block that \<^verbatim>\<open>build_prompt\<close> renders for one retrieved chunk.\<close>

definition render_block :: "string \<times> metadata \<times> 'd \<Rightarrow> string" where
  "render_block ch = (case ch of (text, m, _) \<Rightarrow>
     (''[Source: '' @ (case m ''source'' of None \<Rightarrow> ''unknown'' | Some v \<Rightarrow> str_pyval v))
     @ (if truthy (m ''page'')
        then '', page '' @ (case m ''page'' of None \<Rightarrow> ''None'' | Some v \<Rightarrow> str_pyval v)
        else [])
     @ '']\<newline>'' @ text)"

definition build_prompt :: "string \<Rightarrow> (string \<times> metadata \<times> 'd) list \<Rightarrow> string" where
  "build_prompt question chunks =
     (if chunks = [] then
        ''No relevant documents were found. Answer based on your general knowledge ''
        @ ''and say you have no document context.\<newline>\<newline>Question: '' @ question
      else
        let context = join ''\<newline>\<newline>---\<newline>\<newline>'' (map render_block chunks)
        in ''Use the following context from the user's documents to answer the question. ''
           @ ''If the context does not contain enough information, say so.\<newline>\<newline>''
           @ ''Context:\<newline>'' @ context @ ''\<newline>\<newline>Question: '' @ question)"

subsection \<open>Retrieval\<close>

text \<open>
  The storage collaborator, as \<^verbatim>\<open>retrieve\<close> sees it. \<open>count\<close> is \<^verbatim>\<open>collection.count()\<close>
  (read twice by the code, with no insertion in between). \<open>query q n\<close> is the answer to
  \<^verbatim>\<open>collection.query(query_texts=[q], n_results=n, include=[...])\<close>: \<open>documents\<close> and
  \<open>metadatas\<close> are \<^verbatim>\<open>results["documents"][0]\<close> and \<^verbatim>\<open>results["metadatas"][0]\<close>, \<open>None\<close>
  when the entry is \<^verbatim>\<open>None\<close>; \<open>distances\<close> is \<^verbatim>\<open>results["distances"][0]\<close>, \<open>None\<close> when
  \<^verbatim>\<open>results.get("distances")\<close> is missing or empty. A distance is a float that the code
  only passes on, so its type \<open>'d\<close> is left open; \<open>0\<close> is \<^verbatim>\<open>0.0\<close>.
\<close>

record 'd query_result =
  documents :: "string list option"
  metadatas :: "metadata list option"
  distances :: "'d list option"

record 'd collection =
  count :: int
  query :: "string \<Rightarrow> int \<Rightarrow> 'd query_result"

text \<open>\<^verbatim>\<open>list(zip(docs, metas, dists))\<close>\<close>

definition zip3 :: "'a list \<Rightarrow> 'b list \<Rightarrow> 'c list \<Rightarrow> ('a \<times> 'b \<times> 'c) list" where
  "zip3 xs ys zs = zip xs (zip ys zs)"

text \<open>
  \<^verbatim>\<open>retrieve(question, top_k)\<close>. The second component is the log of the calls to
  \<^verbatim>\<open>collection.query\<close>, each with its question and its \<^verbatim>\<open>n_results\<close>.
\<close>

definition retrieve ::
  "('d::zero) collection \<Rightarrow> string \<Rightarrow> int \<Rightarrow>
   (string \<times> metadata \<times> 'd) list \<times> (string \<times> int) list" where
  "retrieve coll question top_k =
     (if count coll = 0 then ([], [])
      else
        let n_results = min top_k (count coll);
            results = query coll question n_results;
            docs = (case documents results of None \<Rightarrow> [] | Some d \<Rightarrow> d);
            metas = (case metadatas results of None \<Rightarrow> [] | Some m \<Rightarrow> m);
            dists = (case distances results of None \<Rightarrow> replicate (length docs) 0 | Some d \<Rightarrow> d)
        in (zip3 docs metas dists, [(question, n_results)]))"

subsection \<open>Paths and files\<close>

text \<open>
  A path is its text, in the normal form that \<^verbatim>\<open>Path(p).resolve()\<close> yields (components
  separated by \<open>/\<close>, no trailing slash). \<open>name\<close>, \<open>suffix\<close> and \<open>stem\<close> follow
  \<^verbatim>\<open>pathlib.PurePath\<close>: with \<open>i = name.rfind('.')\<close>, the suffix is \<open>name[i:]\<close> and the
  stem \<open>name[:i]\<close> when \<open>0 < i < len(name) - 1\<close>; otherwise the suffix is empty and the
  stem is the name.
\<close>

type_synonym path = string

definition path_name :: "path \<Rightarrow> string" where
  "path_name p = rev (takeWhile (\<lambda>c. c \<noteq> CHR ''/'') (rev p))"

definition rfind_dot :: "string \<Rightarrow> nat option" where
  "rfind_dot name =
     (if CHR ''.'' \<in> set name
      then Some (length name - 1 - length (takeWhile (\<lambda>c. c \<noteq> CHR ''.'') (rev name)))
      else None)"

definition path_suffix :: "path \<Rightarrow> string" where
  "path_suffix p = (let name = path_name p in
     case rfind_dot name of
       None \<Rightarrow> []
     | Some i \<Rightarrow> if 0 < i \<and> i < length name - 1 then drop i name else [])"

definition path_stem :: "path \<Rightarrow> string" where
  "path_stem p = (let name = path_name p in
     case rfind_dot name of
       None \<Rightarrow> name
     | Some i \<Rightarrow> if 0 < i \<and> i < length name - 1 then take i name else name)"

text \<open>
  What the code reads from outside. \<open>fs\<close> is the file system: a path is absent, a regular
  file with its bytes, or a directory with the files and folders that \<^verbatim>\<open>rglob("*")\<close>
  lists below it. \<open>decode_utf8\<close> is \<^verbatim>\<open>read_text(encoding="utf-8", errors="replace")\<close> on
  the bytes of a file. \<open>pdf_pages\<close> is \<^verbatim>\<open>PdfReader\<close>: the value of
  \<^verbatim>\<open>page.extract_text() or ""\<close> for every page, or the exception that reading the
  file raises. \<open>tmp_name\<close> is the name that \<^verbatim>\<open>NamedTemporaryFile\<close> chooses for a suffix.
  \<open>CHUNK_SIZE\<close> and \<open>CHUNK_OVERLAP\<close> are the constants of \<^verbatim>\<open>config.py\<close>, read from the
  process environment (1024 and 200 when unset).

  Opening the store (\<^verbatim>\<open>get_chroma_client_and_collection\<close>) and the insert itself are
  calls into the storage collaborator; the model records the insert and does not look
  inside it.
\<close>

type_synonym bytes = "char list"

datatype node = File bytes | Dir "path list"

datatype exn = Exn string

record env =
  fs :: "path \<Rightarrow> node option"
  resolve :: "path \<Rightarrow> path"
  decode_utf8 :: "bytes \<Rightarrow> string"
  pdf_pages :: "bytes \<Rightarrow> exn + string list"
  tmp_name :: "string \<Rightarrow> path"
  CHUNK_SIZE :: int
  CHUNK_OVERLAP :: int

definition exists :: "env \<Rightarrow> path \<Rightarrow> bool" where
  "exists e p = (fs e p \<noteq> None)"

definition is_file :: "env \<Rightarrow> path \<Rightarrow> bool" where
  "is_file e p = (case fs e p of Some (File _) \<Rightarrow> True | _ \<Rightarrow> False)"

definition rglob :: "env \<Rightarrow> path \<Rightarrow> path list" where
  "rglob e p = (case fs e p of Some (Dir entries) \<Rightarrow> entries | _ \<Rightarrow> [])"

text \<open>Opening a path that is not a regular file raises.\<close>

definition read_bytes :: "env \<Rightarrow> path \<Rightarrow> exn + bytes" where
  "read_bytes e p = (case fs e p of
       Some (File b) \<Rightarrow> Inr b
     | Some (Dir _) \<Rightarrow> Inl (Exn ''IsADirectoryError'')
     | None \<Rightarrow> Inl (Exn ''FileNotFoundError''))"

subsection \<open>Loading documents\<close>

type_synonym item = "string \<times> metadata"

definition load_pdf :: "env \<Rightarrow> path \<Rightarrow> exn + item list" where
  "load_pdf e p = (case read_bytes e p of
       Inl x \<Rightarrow> Inl x
     | Inr b \<Rightarrow> (case pdf_pages e b of
         Inl x \<Rightarrow> Inl x
       | Inr pages \<Rightarrow> Inr (concat (map (\<lambda>(i, text).
           if strip text \<noteq> []
           then [(text, [''source'' \<mapsto> PStr (path_name p), ''page'' \<mapsto> PInt (int i + 1)])]
           else []) (enumerate 0 pages)))))"

definition load_text :: "env \<Rightarrow> path \<Rightarrow> exn + item list" where
  "load_text e p = (case read_bytes e p of
       Inl x \<Rightarrow> Inl x
     | Inr b \<Rightarrow> (let text = decode_utf8 e b in
         if strip text = [] then Inr [] else Inr [(text, [''source'' \<mapsto> PStr (path_name p)])]))"

definition load_document :: "env \<Rightarrow> path \<Rightarrow> exn + item list" where
  "load_document e p =
     (if \<not> exists e p then Inr []
      else let suf = lower (path_suffix p) in
        if suf = ''.pdf'' then load_pdf e p
        else if suf \<in> set [''.txt'', ''.md'', ''.text''] then load_text e p
        else Inr [])"

subsection \<open>Ingestion\<close>

text \<open>The accumulators of one ingestion call.\<close>

record accum =
  errors :: "string list"
  all_ids :: "string list"
  all_chunks :: "string list"
  all_metadatas :: "metadata list"

definition empty_accum :: accum where
  "empty_accum = \<lparr>errors = [], all_ids = [], all_chunks = [], all_metadatas = []\<rparr>"

text \<open>
  \<^verbatim>\<open>for chunk in _chunk_text(text)\<close>: the state is the counter \<open>idx\<close> and the
  accumulators; \<open>doc_id\<close> formats the identifier for an index.
\<close>

fun add_chunks :: "(nat \<Rightarrow> string) \<Rightarrow> metadata \<Rightarrow> string list \<Rightarrow> nat \<times> accum \<Rightarrow> nat \<times> accum" where
  "add_chunks doc_id meta [] (idx, acc) = (idx, acc)"
| "add_chunks doc_id meta (chunk # chunks) (idx, acc) =
     add_chunks doc_id meta chunks
       (idx + 1, acc\<lparr>all_ids := all_ids acc @ [doc_id idx],
                      all_chunks := all_chunks acc @ [chunk],
                      all_metadatas := all_metadatas acc @ [meta]\<rparr>)"

text \<open>
  \<^verbatim>\<open>for text, meta in items\<close>; \<open>override\<close> is the rebinding of \<open>meta\<close> at the head of
  the loop body (the identity in \<^verbatim>\<open>ingest_paths\<close>).
\<close>

fun add_items ::
  "env \<Rightarrow> (nat \<Rightarrow> string) \<Rightarrow> (metadata \<Rightarrow> metadata) \<Rightarrow> item list \<Rightarrow> nat \<times> accum \<Rightarrow> nat \<times> accum" where
  "add_items e doc_id override [] st = st"
| "add_items e doc_id override ((text, meta) # items) st =
     add_items e doc_id override items
       (add_chunks doc_id (override meta) (chunk_text text (CHUNK_SIZE e) (CHUNK_OVERLAP e)) st)"

text \<open>\<^verbatim>\<open>add_file(file_path)\<close> of \<^verbatim>\<open>ingest_paths\<close>; an exception of the loader is not caught.\<close>

definition add_file :: "env \<Rightarrow> path \<Rightarrow> accum \<Rightarrow> exn + accum" where
  "add_file e file_path acc = (case load_document e file_path of
       Inl x \<Rightarrow> Inl x
     | Inr items \<Rightarrow>
         if items = [] then
           (if lower (path_suffix file_path) \<in> set [''.pdf'', ''.txt'', ''.md'']
            then Inr (acc\<lparr>errors := errors acc @ [''Empty or unreadable: '' @ file_path]\<rparr>)
            else Inr acc)
         else
           Inr (snd (add_items e (\<lambda>idx. path_stem file_path @ ''_'' @ str_nat idx) (\<lambda>m. m)
                       items (0, acc))))"

text \<open>\<^verbatim>\<open>for f in p.rglob("*")\<close>\<close>

fun add_folder :: "env \<Rightarrow> path list \<Rightarrow> accum \<Rightarrow> exn + accum" where
  "add_folder e [] acc = Inr acc"
| "add_folder e (f # rest) acc =
     (if is_file e f \<and> lower (path_suffix f) \<in> set [''.pdf'', ''.txt'', ''.md'', ''.text'']
      then (case add_file e f acc of Inl x \<Rightarrow> Inl x | Inr acc' \<Rightarrow> add_folder e rest acc')
      else add_folder e rest acc)"

text \<open>\<^verbatim>\<open>for p in paths\<close>\<close>

fun add_paths :: "env \<Rightarrow> path list \<Rightarrow> accum \<Rightarrow> exn + accum" where
  "add_paths e [] acc = Inr acc"
| "add_paths e (p0 # rest) acc =
     (let p = resolve e p0 in
      if \<not> exists e p then add_paths e rest (acc\<lparr>errors := errors acc @ [''Not found: '' @ p]\<rparr>)
      else if is_file e p
      then (case add_file e p acc of Inl x \<Rightarrow> Inl x | Inr acc' \<Rightarrow> add_paths e rest acc')
      else (case add_folder e (rglob e p) acc of
              Inl x \<Rightarrow> Inl x | Inr acc' \<Rightarrow> add_paths e rest acc'))"

text \<open>
  One call \<^verbatim>\<open>collection.add(ids=..., documents=..., metadatas=...)\<close>, and the end of both
  ingestion functions: no call when no chunk was gathered.
\<close>

type_synonym add_call = "string list \<times> string list \<times> metadata list"

text \<open>
  \<^verbatim>\<open>ingest_paths(paths)\<close>: the value returned (or the exception that escapes) and the
  calls made to \<^verbatim>\<open>collection.add\<close>.
\<close>

definition ingest_paths :: "env \<Rightarrow> path list \<Rightarrow> (exn + nat \<times> string list) \<times> add_call list" where
  "ingest_paths e paths = (case add_paths e paths empty_accum of
       Inl x \<Rightarrow> (Inl x, [])
     | Inr acc \<Rightarrow>
         if all_chunks acc = [] then (Inr (0, errors acc), [])
         else (Inr (length (all_ids acc), errors acc),
               [(all_ids acc, all_chunks acc, all_metadatas acc)]))"

text \<open>
  A Python \<^verbatim>\<open>bytes\<close> object: its identity \<^verbatim>\<open>id(raw)\<close> and its content. Two objects alive
  at the same time have different identities; one object may be listed twice.
\<close>

record bytes_obj =
  obj_id :: nat
  obj_data :: bytes

text \<open>
  The loop of \<^verbatim>\<open>ingest_files_in_memory\<close> over \<^verbatim>\<open>zip(file_contents, filenames)\<close>. The
  temporary file exists, with the uploaded bytes, while \<^verbatim>\<open>load_document\<close> runs.
\<close>

fun add_uploads :: "env \<Rightarrow> ((string \<times> bytes_obj \<times> string) \<times> string) list \<Rightarrow> accum \<Rightarrow> accum" where
  "add_uploads e [] acc = acc"
| "add_uploads e (((name, raw, ext), display_name) # rest) acc =
     (let tmp_path = tmp_name e (if ext = [] then ''.txt'' else ext);
          e' = e\<lparr>fs := (fs e)(tmp_path \<mapsto> File (obj_data raw))\<rparr>
      in case load_document e' tmp_path of
           Inl (Exn msg) \<Rightarrow>
             add_uploads e rest (acc\<lparr>errors := errors acc @ [display_name @ '': '' @ msg]\<rparr>)
         | Inr items \<Rightarrow>
             if items = [] then
               add_uploads e rest
                 (acc\<lparr>errors := errors acc @ [''Empty or unreadable: '' @ display_name]\<rparr>)
             else
               add_uploads e rest
                 (snd (add_items e
                    (\<lambda>idx. path_stem display_name @ ''_'' @ str_nat idx @ ''_'' @ str_nat (obj_id raw))
                    (\<lambda>m. m(''source'' \<mapsto> PStr display_name))
                    items (0, acc))))"

definition ingest_files_in_memory ::
  "env \<Rightarrow> (string \<times> bytes_obj \<times> string) list \<Rightarrow> string list \<Rightarrow>
   (nat \<times> string list) \<times> add_call list" where
  "ingest_files_in_memory e file_contents filenames =
     (let acc = add_uploads e (zip file_contents filenames) empty_accum in
      if all_chunks acc = [] then ((0, errors acc), [])
      else ((length (all_chunks acc), errors acc),
            [(all_ids acc, all_chunks acc, all_metadatas acc)]))"

subsection \<open>What an ingestion is meant to insert\<close>

text \<open>
  A second description of an ingestion, after the words of the specification and not
  after the loops of the code, to compare the code with. These are the rows that an
  ingestion is meant to hand to the store, built chunk by chunk: every
  chunk of every text unit of a document gives one row with the chunk's identifier (the
  position of the chunk within its document), the chunk's text and the metadata of the
  text unit the chunk was cut from.
\<close>

type_synonym row = "string \<times> string \<times> metadata"

definition unit_chunks :: "env \<Rightarrow> (metadata \<Rightarrow> metadata) \<Rightarrow> item list \<Rightarrow> (string \<times> metadata) list" where
  "unit_chunks e override items =
     concat (map (\<lambda>(text, meta).
        map (\<lambda>chunk. (chunk, override meta)) (chunk_text text (CHUNK_SIZE e) (CHUNK_OVERLAP e)))
       items)"

definition number_rows :: "(nat \<Rightarrow> string) \<Rightarrow> nat \<Rightarrow> (string \<times> metadata) list \<Rightarrow> row list" where
  "number_rows doc_id k pairs = map (\<lambda>(idx, (chunk, meta)). (doc_id idx, chunk, meta)) (enumerate k pairs)"

definition document_rows :: "env \<Rightarrow> (nat \<Rightarrow> string) \<Rightarrow> (metadata \<Rightarrow> metadata) \<Rightarrow> item list \<Rightarrow> row list" where
  "document_rows e doc_id override items = number_rows doc_id 0 (unit_chunks e override items)"

definition file_rows :: "env \<Rightarrow> path \<Rightarrow> row list" where
  "file_rows e f = (case load_document e f of
       Inl _ \<Rightarrow> []
     | Inr items \<Rightarrow> document_rows e (\<lambda>idx. path_stem f @ ''_'' @ str_nat idx) (\<lambda>m. m) items)"

definition visited_files :: "env \<Rightarrow> path list \<Rightarrow> path list" where
  "visited_files e paths = concat (map (\<lambda>p0.
       let p = resolve e p0 in
       if \<not> exists e p then []
       else if is_file e p then [p]
       else filter (\<lambda>f. is_file e f \<and> lower (path_suffix f) \<in> set [''.pdf'', ''.txt'', ''.md'', ''.text''])
              (rglob e p)) paths)"

definition upload_rows :: "env \<Rightarrow> (string \<times> bytes_obj \<times> string) \<times> string \<Rightarrow> row list" where
  "upload_rows e u = (case u of ((name, raw, ext), display_name) \<Rightarrow>
     (let tmp_path = tmp_name e (if ext = [] then ''.txt'' else ext);
          e' = e\<lparr>fs := (fs e)(tmp_path \<mapsto> File (obj_data raw))\<rparr>
      in case load_document e' tmp_path of
           Inl _ \<Rightarrow> []
         | Inr items \<Rightarrow> document_rows e
             (\<lambda>idx. path_stem display_name @ ''_'' @ str_nat idx @ ''_'' @ str_nat (obj_id raw))
             (\<lambda>m. m(''source'' \<mapsto> PStr display_name)) items))"

definition rows :: "accum \<Rightarrow> row list" where
  "rows acc = zip3 (all_ids acc) (all_chunks acc) (all_metadatas acc)"

definition aligned :: "accum \<Rightarrow> bool" where
  "aligned acc = (length (all_ids acc) = length (all_chunks acc) \<and>
                  length (all_chunks acc) = length (all_metadatas acc))"

subsection \<open>Example stores, folders and uploads\<close>

text \<open>A store with no chunk, whose query must never be asked, and a store with three.\<close>

definition empty_store :: "int collection" where
  "empty_store = \<lparr>count = 0, query = (\<lambda>q n. \<lparr>documents = Some [''never asked''],
     metadatas = Some [Map.empty], distances = Some [1]\<rparr>)\<rparr>"

definition small_store :: "int collection" where
  "small_store = \<lparr>count = 3, query = (\<lambda>q n.
     \<lparr>documents = Some (take (nat n) [''one'', ''two'', ''three'']),
      metadatas = Some (take (nat n) [[''source'' \<mapsto> PStr ''a.txt''], Map.empty, Map.empty]),
      distances = Some (take (nat n) [1, 2, 3])\<rparr>)\<rparr>"

text \<open>
  A folder \<open>/d\<close> with the files \<open>a.txt\<close> and \<open>a.md\<close>, an empty folder \<open>/e\<close>, and
  nothing at \<open>/x\<close>.
\<close>

definition folder_env :: env where
  "folder_env = \<lparr>fs = [''/d'' \<mapsto> Dir [''/d/a.txt'', ''/d/a.md''],
                 ''/d/a.txt'' \<mapsto> File ''one'', ''/d/a.md'' \<mapsto> File ''two'',
                 ''/e'' \<mapsto> Dir []],
           resolve = (\<lambda>p. p), decode_utf8 = (\<lambda>b. b), pdf_pages = (\<lambda>b. Inr []),
           tmp_name = (\<lambda>s. ''/tmp/tmpx'' @ s), CHUNK_SIZE = 1024, CHUNK_OVERLAP = 200\<rparr>"

text \<open>An upload with some text, and an upload with nothing but two spaces.\<close>

definition one_upload :: "(string \<times> bytes_obj \<times> string) list" where
  "one_upload = [(''notes.txt'', \<lparr>obj_id = 77, obj_data = ''some text''\<rparr>, ''.txt'')]"


section \<open>Properties of the chunker\<close>

subsection \<open>Whitespace and the helper functions\<close>

lemma set_strip: "set (strip s) \<subseteq> set s"
  unfolding strip_def
  by (metis set_rev set_dropWhileD subsetI)




lemma split_ws_nonempty: "split_ws s \<noteq> []"
  by (induction s rule: split_ws.induct) (auto split: list.splits)






subsection \<open>The size of a chunk\<close>




lemma chunk_text_levels:
  "chunk_text text cs ov =
    (if text = [] \<or> strip text = [] then []
     else filter (\<lambda>c. strip c \<noteq> [])
       (level cs ov (level cs ov (level cs ov (level cs ov [text]
          ''\<newline>\<newline>'') ''\<newline>'') ''. '') '' ''))"
  by (simp add: chunk_text_def separators_def)





subsection \<open>The whitespace level joins words without a space\<close>

text \<open>
  Claim C3. At the whitespace level the parts of a segment are the words that
  \<^verbatim>\<open>re.split(r"\s+", c)\<close> returns, and \<^verbatim>\<open>add = part\<close>: the words are appended to
  \<open>current\<close> one after the other with nothing between them. With \<open>chunk_size = 7\<close> and no
  overlap the text \<open>aaa bbb ccc\<close> gives the chunks \<open>aaabbb\<close> and \<open>ccc\<close>, not \<open>aaa bbb\<close>
  and \<open>ccc\<close>.
\<close>

theorem whitespace_level_concatenates:
  "chunk_text ''aaa bbb ccc'' 7 0 = [''aaabbb'', ''ccc'']"
  by code_simp

subsection \<open>Trimming\<close>

lemma starts_dropWhile: "\<not> starts_with_space (dropWhile is_space s)"
proof (cases "dropWhile is_space s")
  case Nil
  show ?thesis unfolding starts_with_space_def Nil by simp
next
  case (Cons x xs)
  have "\<not> is_space x" by (metis Cons hd_dropWhile list.sel(1) list.discI)
  then show ?thesis unfolding starts_with_space_def Cons by simp
qed

lemma strip_prefix: "prefix (strip s) (dropWhile is_space s)"
proof -
  let ?t = "dropWhile is_space s"
  have "rev ?t = takeWhile is_space (rev ?t) @ dropWhile is_space (rev ?t)" by simp
  then have "?t = rev (dropWhile is_space (rev ?t)) @ rev (takeWhile is_space (rev ?t))"
    by (metis rev_append rev_rev_ident)
  then show ?thesis unfolding strip_def by (metis prefixI)
qed

lemma trimmed_strip: "trimmed (strip s)"
proof -
  have e: "\<not> ends_with_space (strip s)"
    by (simp add: ends_with_space_def strip_def starts_dropWhile)
  have b: "\<not> starts_with_space (strip s)"
  proof (cases "strip s")
    case Nil
    then show ?thesis by (simp add: starts_with_space_def)
  next
    case (Cons x xs)
    then obtain ys where "dropWhile is_space s = x # ys"
      using strip_prefix[of s] by (auto simp: prefix_def)
    then show ?thesis using starts_dropWhile[of s] Cons by (simp add: starts_with_space_def)
  qed
  show ?thesis using e b by (simp add: trimmed_def)
qed



lemma pack_parts_trimmed: "c \<in> set (pack_parts cs ov sep n cur ps) \<Longrightarrow> trimmed c"
proof (induction ps arbitrary: cur)
  case Nil
  then show ?case by (simp add: trimmed_strip split: if_splits)
next
  case (Cons ip rest)
  obtain i part where ip: "ip = (i, part)" by (cases ip)
  define add where "add = (if sep = '' '' then part else part @ (if i < n - 1 then sep else []))"
  show ?case
  proof (cases "int (length cur) + int (length add) \<le> cs")
    case True
    then have "c \<in> set (pack_parts cs ov sep n (cur @ add) rest)"
      using Cons.prems ip by (simp add: add_def Let_def)
    then show ?thesis by (rule Cons.IH)
  next
    case False
    then have "c \<in> set (if cur \<noteq> [] then [strip cur] else []) \<or>
      c \<in> set (pack_parts cs ov sep n (overlap_start ov cur @ add) rest)"
      using Cons.prems ip by (simp add: add_def Let_def)
    then show ?thesis
    proof
      assume "c \<in> set (if cur \<noteq> [] then [strip cur] else [])"
      then show ?thesis by (simp add: trimmed_strip split: if_splits)
    next
      assume "c \<in> set (pack_parts cs ov sep n (overlap_start ov cur @ add) rest)"
      then show ?thesis by (rule Cons.IH)
    qed
  qed
qed

lemma split_chunk_long_trimmed:
  "\<not> int (length s) \<le> cs \<Longrightarrow> c \<in> set (split_chunk cs ov sep s) \<Longrightarrow> trimmed c"
  by (simp add: split_chunk_def Let_def pack_parts_trimmed)

lemma split_chunk_trimmed:
  "trimmed s \<Longrightarrow> c \<in> set (split_chunk cs ov sep s) \<Longrightarrow> trimmed c"
  by (cases "int (length s) \<le> cs") (simp_all add: split_chunk_def Let_def pack_parts_trimmed)

lemma level_trimmed:
  "\<forall>s \<in> set chunks. trimmed s \<Longrightarrow> \<forall>c \<in> set (level cs ov chunks sep). trimmed c"
  by (auto simp: level_def dest: split_chunk_trimmed)

lemma level_long_trimmed:
  "\<not> int (length s) \<le> cs \<Longrightarrow> \<forall>c \<in> set (level cs ov [s] sep). trimmed c"
  by (auto simp: level_def dest: split_chunk_long_trimmed)

lemma chunk_text_long_trimmed:
  assumes "cs < int (length text)" "c \<in> set (chunk_text text cs ov)"
  shows "trimmed c"
proof -
  have l1: "\<forall>c \<in> set (level cs ov [text] ''\<newline>\<newline>''). trimmed c"
    using assms(1) by (intro level_long_trimmed) simp
  note l4 = level_trimmed[OF level_trimmed[OF level_trimmed[OF l1]]]
  show ?thesis using assms(2) l4 by (auto simp: chunk_text_levels split: if_splits)
qed

lemma level_short: "int (length s) \<le> cs \<Longrightarrow> level cs ov [s] sep = [s]"
  by (simp add: level_def split_chunk_def)

lemma strip_Nil [simp]: "strip [] = []"
  by (simp add: strip_def)

lemma chunk_text_short:
  "int (length text) \<le> cs \<Longrightarrow> chunk_text text cs ov = (if strip text = [] then [] else [text])"
  by (auto simp: chunk_text_levels level_short)

text \<open>
  Claim C5 says that every chunk returned is trimmed. A text that fits in \<open>chunk_size\<close>
  takes the branch \<^verbatim>\<open>if len(c) <= chunk_size: new_chunks.append(c)\<close> at every level and
  is returned as it is, with its leading and trailing whitespace.
\<close>

theorem untrimmed_chunk_counterexample:
  "chunk_text '' a '' 1024 200 = ['' a ''] \<and> \<not> trimmed '' a ''"
  by code_simp

text \<open>
  Claim C5, amended. When the text is longer than \<open>chunk_size\<close>, every chunk returned is
  trimmed: it neither starts nor ends with a whitespace character. When the text fits in
  \<open>chunk_size\<close> and is not only whitespace, it is returned unchanged as the only chunk.
\<close>

theorem trimmed_when_split:
  "(chunk_size < int (length text) \<longrightarrow>
      (\<forall>c \<in> set (chunk_text text chunk_size overlap). trimmed c)) \<and>
   (int (length text) \<le> chunk_size \<longrightarrow>
      chunk_text text chunk_size overlap = (if strip text = [] then [] else [text]))"
  using chunk_text_long_trimmed chunk_text_short by blast

theorem trimmed_when_split_witness:
  "6 < int (length '' aaaa. bbbb '') \<and>
   chunk_text '' aaaa. bbbb '' 6 0 = [''aaaa.'', ''bbbb''] \<and>
   trimmed ''aaaa.'' \<and> trimmed ''bbbb'' \<and>
   int (length '' a '') \<le> 1024 \<and> strip '' a '' \<noteq> [] \<and>
   chunk_text '' a '' 1024 200 = ['' a '']"
proof -
  have a: "chunk_text '' aaaa. bbbb '' 6 0 = [''aaaa.'', ''bbbb'']" by code_simp
  have b: "strip '' a '' \<noteq> []" by code_simp
  show ?thesis
    using a b trimmed_when_split[of 6 "'' aaaa. bbbb ''" 0]
      trimmed_when_split[of 1024 "'' a ''" 200]
    by simp
qed

subsection \<open>Texts without line breaks and sentence boundaries\<close>


lemma sublist_strip: "sublist (strip s) s"
proof -
  have "sublist (strip s) (dropWhile is_space s)"
    using strip_prefix by (rule prefix_imp_sublist)
  moreover have "sublist (dropWhile is_space s) s"
    using suffix_dropWhile by (rule suffix_imp_sublist)
  ultimately show ?thesis by (rule sublist_order.order.trans)
qed



lemma overlap_start_Nil [simp]: "overlap_start ov [] = []"
  by (simp add: overlap_start_def)



lemma level_Nil [simp]: "level cs ov [] sep = []"
  by (simp add: level_def)

lemma length_strip: "length (strip s) \<le> length s"
  using sublist_strip sublist_length_le by blast













subsection \<open>The marked chunker computes the chunks of the chunker\<close>

lemma plain_simps [simp]:
  "plain [] = []" "plain (x # xs) = fst x # plain xs" "plain (a @ b) = plain a @ plain b"
  "plain (rev s) = rev (plain s)" "plain (drop k s) = drop k (plain s)"
  "plain (take k s) = take k (plain s)" "length (plain s) = length s"
  by (simp_all add: plain_def rev_map drop_map take_map)

lemma plain_Nil_iff [simp]: "(plain s = []) = (s = [])"
  by (simp add: plain_def)

lemma plain_dropWhile: "plain (dropWhile (is_space \<circ> fst) s) = dropWhile is_space (plain s)"
  by (simp add: plain_def dropWhile_map)

lemma plain_m_strip: "plain (m_strip s) = strip (plain s)"
  by (simp add: m_strip_def strip_def plain_dropWhile)

lemma m_strip_Nil_iff: "(m_strip s = []) = (strip (plain s) = [])"
  using plain_m_strip[of s] plain_Nil_iff[of "m_strip s"] by simp

lemma plain_m_overlap_start: "plain (m_overlap_start ov cur) = overlap_start ov (plain cur)"
  by (simp add: m_overlap_start_def overlap_start_def plain_def drop_map case_prod_unfold comp_def)

lemma split_on_nonempty: "split_on sep s \<noteq> []"
  by (induction sep s rule: split_on.induct) (auto split: list.splits)

lemma m_pieces_nonempty: "m_pieces sep s \<noteq> []"
  by (induction sep s rule: m_pieces.induct) (auto split: list.splits)

lemma adds_nonempty: "ps \<noteq> [] \<Longrightarrow> adds sep ps \<noteq> []"
  by (induction sep ps rule: adds.induct) simp_all

lemma adds_Nil_Cons: "ps \<noteq> [] \<Longrightarrow> adds sep ([] # ps) = sep # adds sep ps"
  by (cases ps) simp_all

lemma adds_Cons_Cons:
  "adds sep ((a # q) # qs) = (a # hd (adds sep (q # qs))) # tl (adds sep (q # qs))"
  by (cases qs) simp_all

lemma plain_m_pieces: "map plain (m_pieces sep s) = adds sep (split_on sep (plain s))"
proof (induction sep s rule: m_pieces.induct)
  case (1 sep)
  then show ?case by simp
next
  case (2 sep x xs)
  show ?case
  proof (cases "sep \<noteq> [] \<and> prefix sep (map fst (x # xs))")
    case True
    then have tk: "take (length sep) (fst x # plain xs) = sep"
      by (auto simp: prefix_def plain_def)
    have "map plain (m_pieces sep (x # xs)) =
      sep # map plain (m_pieces sep (drop (length sep - 1) xs))"
      using True tk by simp
    also have "\<dots> = sep # adds sep (split_on sep (plain (drop (length sep - 1) xs)))"
      using "2.IH"(1)[OF True] by simp
    also have "\<dots> = adds sep ([] # split_on sep (drop (length sep - 1) (plain xs)))"
      by (simp add: adds_Nil_Cons split_on_nonempty)
    also have "\<dots> = adds sep (split_on sep (plain (x # xs)))"
      using True by (simp add: plain_def)
    finally show ?thesis .
  next
    case False
    obtain p ps where p: "m_pieces sep xs = p # ps"
      using m_pieces_nonempty[of sep xs] by (cases "m_pieces sep xs") auto
    obtain q qs where q: "split_on sep (plain xs) = q # qs"
      using split_on_nonempty[of sep "plain xs"] by (cases "split_on sep (plain xs)") auto
    have ih: "plain p # map plain ps = adds sep (q # qs)"
      using "2.IH"(2)[OF False] p q by simp
    have f': "\<not> (sep \<noteq> [] \<and> prefix sep (fst x # plain xs))"
      using False by (simp add: plain_def)
    have "map plain (m_pieces sep (x # xs)) = (fst x # plain p) # map plain ps"
      using False p by auto
    also have "\<dots> = (fst x # hd (adds sep (q # qs))) # tl (adds sep (q # qs))"
      using ih by (metis list.sel(1) list.sel(3))
    also have "\<dots> = adds sep ((fst x # q) # qs)" by (simp add: adds_Cons_Cons)
    also have "\<dots> = adds sep (split_on sep (plain (x # xs)))"
      using f' q by auto
    finally show ?thesis .
  qed
qed

lemma m_words_nonempty: "m_words s \<noteq> []"
  by (induction s rule: m_words.induct) (auto split: list.splits)

lemma plain_m_words: "map plain (m_words s) = split_ws (plain s)"
proof (induction s rule: m_words.induct)
  case 1
  then show ?case by simp
next
  case (2 x xs)
  show ?case
  proof (cases "is_space (fst x)")
    case True
    then show ?thesis using "2.IH"(1)[OF True] by (simp add: plain_dropWhile)
  next
    case False
    obtain p ps where p: "m_words xs = p # ps"
      using m_words_nonempty[of xs] by (cases "m_words xs") auto
    obtain q qs where q: "split_ws (plain xs) = q # qs"
      using split_ws_nonempty[of "plain xs"] by (cases "split_ws (plain xs)") auto
    have "plain p # map plain ps = q # qs" using "2.IH"(2)[OF False] p q by simp
    then show ?thesis using False p q by simp
  qed
qed

lemma plain_m_pack:
  "map plain madds = map (add_of sep n) ips \<Longrightarrow>
   map plain (m_pack cs ov mcur madds) = pack_parts cs ov sep n (plain mcur) ips"
proof (induction ips arbitrary: madds mcur)
  case Nil
  then show ?case by (simp add: plain_m_strip m_strip_Nil_iff)
next
  case (Cons ip rest)
  obtain i part where ip: "ip = (i, part)" by (cases ip)
  obtain madd mrest where m: "madds = madd # mrest" using Cons.prems by (cases madds) auto
  have a: "plain madd = add_of sep n (i, part)" and r: "map plain mrest = map (add_of sep n) rest"
    using Cons.prems m ip by simp_all
  have len: "length madd = length (add_of sep n (i, part))" using a by (metis plain_simps(7))
  show ?case
  proof (cases "int (length mcur) + int (length madd) \<le> cs")
    case True
    then have "map plain (m_pack cs ov mcur madds) = map plain (m_pack cs ov (mcur @ madd) mrest)"
      using m by simp
    also have "\<dots> = pack_parts cs ov sep n (plain (mcur @ madd)) rest"
      using Cons.IH[OF r] by simp
    also have "\<dots> = pack_parts cs ov sep n (plain mcur) (ip # rest)"
      using True len a ip by (simp add: add_of_def Let_def)
    finally show ?thesis .
  next
    case False
    then have "map plain (m_pack cs ov mcur madds) =
      (if mcur \<noteq> [] then [plain (m_strip mcur)] else [])
        @ map plain (m_pack cs ov (m_overlap_start ov mcur @ madd) mrest)"
      using m by simp
    also have "\<dots> = (if plain mcur \<noteq> [] then [strip (plain mcur)] else [])
        @ pack_parts cs ov sep n (plain (m_overlap_start ov mcur @ madd)) rest"
      using Cons.IH[OF r] by (simp add: plain_m_strip)
    also have "\<dots> = pack_parts cs ov sep n (plain mcur) (ip # rest)"
      using False len a ip by (simp add: add_of_def Let_def plain_m_overlap_start)
    finally show ?thesis .
  qed
qed

lemma add_of_enumerate:
  "sep \<noteq> '' '' \<Longrightarrow> map (add_of sep (k + length ps)) (enumerate k ps) = adds sep ps"
proof (induction sep ps arbitrary: k rule: adds.induct)
  case (1 sep)
  then show ?case by simp
next
  case (2 sep p)
  then show ?case by (simp add: add_of_def)
next
  case (3 sep p q ps)
  have ih: "map (add_of sep (Suc k + length (q # ps))) (enumerate (Suc k) (q # ps)) = adds sep (q # ps)"
    using "3.IH"[OF "3.prems", of "Suc k"] .
  have first: "add_of sep (k + length (p # q # ps)) (k, p) = p @ sep"
    using "3.prems" by (simp add: add_of_def)
  have "map (add_of sep (k + length (p # q # ps))) (enumerate k (p # q # ps)) =
    add_of sep (k + length (p # q # ps)) (k, p)
      # map (add_of sep (Suc k + length (q # ps))) (enumerate (Suc k) (q # ps))"
    by simp
  then show ?case using first ih by simp
qed

lemma add_of_enumerate_ws: "map (add_of '' '' n) (enumerate k ps) = ps"
  by (induction ps arbitrary: k) (simp_all add: add_of_def)

lemma plain_m_split_chunk:
  "map plain (m_split_chunk cs ov sep c) = split_chunk cs ov sep (plain c)"
proof (cases "int (length c) \<le> cs")
  case True
  then show ?thesis by (simp add: m_split_chunk_def split_chunk_def)
next
  case long: False
  show ?thesis
  proof (cases "sep = '' ''")
    case True
    have "map plain (m_words c) = map (add_of '' '' (length (split_ws (plain c))))
        (enumerate 0 (split_ws (plain c)))"
      by (simp add: add_of_enumerate_ws plain_m_words)
    from plain_m_pack[OF this, of cs ov "[]"] show ?thesis
      using long True by (simp add: m_split_chunk_def split_chunk_def Let_def)
  next
    case False
    have "map plain (m_pieces sep c) = map (add_of sep (length (split_on sep (plain c))))
        (enumerate 0 (split_on sep (plain c)))"
      using add_of_enumerate[OF False, of 0 "split_on sep (plain c)"]
      by (simp add: plain_m_pieces)
    from plain_m_pack[OF this, of cs ov "[]"] show ?thesis
      using long False by (simp add: m_split_chunk_def split_chunk_def Let_def)
  qed
qed

lemma plain_m_level:
  "map plain (m_level cs ov chunks sep) = level cs ov (map plain chunks) sep"
  by (simp add: m_level_def level_def map_concat comp_def plain_m_split_chunk)

lemma plain_foldl_level:
  "map plain (foldl (m_level cs ov) chunks seps) = foldl (level cs ov) (map plain chunks) seps"
  by (induction seps arbitrary: chunks) (simp_all add: plain_m_level)

lemma plain_unmarked [simp]: "plain (unmarked s) = s"
  by (simp add: plain_def unmarked_def comp_def)

lemma plain_m_chunk_text:
  "map plain (m_chunk_text (unmarked s) cs ov) = chunk_text s cs ov"
proof -
  have f: "map plain (filter (\<lambda>c. strip (plain c) \<noteq> []) xs)
      = filter (\<lambda>c. strip c \<noteq> []) (map plain xs)"
    for xs by (simp add: filter_map comp_def)
  have u: "(unmarked s = []) = (s = [])" by (simp add: unmarked_def)
  show ?thesis
    using plain_foldl_level[of cs ov "[unmarked s]" separators]
    by (simp add: m_chunk_text_def chunk_text_def f u m_strip_Nil_iff)
qed

subsection \<open>Every character of the input is kept once\<close>

lemma core_simps [simp]:
  "core [] = []" "core (a @ b) = core a @ core b" "core (rev s) = rev (core s)"
  by (simp_all add: core_def rev_map rev_filter)

lemma core_Cons:
  "core (x # xs) = (if \<not> snd x \<and> \<not> is_space (fst x) then fst x # core xs else core xs)"
  by (simp add: core_def case_prod_unfold)

lemma core_concat: "core (concat xss) = concat (map core xss)"
  by (induction xss) simp_all

lemma core_dropWhile: "core (dropWhile (is_space \<circ> fst) s) = core s"
  by (induction s) (simp_all add: core_Cons)

lemma core_m_strip: "core (m_strip s) = core s"
  by (simp add: m_strip_def core_dropWhile)

lemma core_m_strip_Nil: "m_strip s = [] \<Longrightarrow> core s = []"
  using core_m_strip[of s] by simp

lemma core_marked: "core (map (\<lambda>(c, _). (c, True)) s) = []"
  by (induction s) (simp_all add: core_Cons case_prod_unfold)

lemma core_m_overlap_start: "core (m_overlap_start ov cur) = []"
  unfolding m_overlap_start_def by (rule core_marked)

lemma concat_m_pieces: "concat (m_pieces sep s) = s"
proof (induction sep s rule: m_pieces.induct)
  case (1 sep)
  then show ?case by simp
next
  case (2 sep x xs)
  show ?case
  proof (cases "sep \<noteq> [] \<and> prefix sep (map fst (x # xs))")
    case True
    then obtain k where k: "length sep = Suc k" by (cases sep) auto
    have "concat (m_pieces sep (x # xs)) =
      take (length sep) (x # xs) @ concat (m_pieces sep (drop (length sep - 1) xs))"
      using True by simp
    also have "\<dots> = take (length sep) (x # xs) @ drop (length sep - 1) xs"
      using "2.IH"(1)[OF True] by simp
    also have "\<dots> = x # xs" using k by simp
    finally show ?thesis .
  next
    case False
    obtain p ps where p: "m_pieces sep xs = p # ps"
      using m_pieces_nonempty[of sep xs] by (cases "m_pieces sep xs") auto
    have "concat (p # ps) = xs" using "2.IH"(2)[OF False] p by simp
    moreover have "m_pieces sep (x # xs) = (x # p) # ps" using False p by auto
    ultimately show ?thesis by simp
  qed
qed

lemma core_m_words: "core (concat (m_words s)) = core s"
proof (induction s rule: m_words.induct)
  case 1
  then show ?case by simp
next
  case (2 x xs)
  show ?case
  proof (cases "is_space (fst x)")
    case True
    then show ?thesis using "2.IH"(1)[OF True] by (simp add: core_dropWhile core_Cons)
  next
    case False
    obtain p ps where p: "m_words xs = p # ps"
      using m_words_nonempty[of xs] by (cases "m_words xs") auto
    have "core (concat (p # ps)) = core xs" using "2.IH"(2)[OF False] p by simp
    moreover have "m_words (x # xs) = (x # p) # ps" using False p by simp
    ultimately show ?thesis by (simp add: core_Cons)
  qed
qed

lemma core_m_pack:
  "core (concat (m_pack cs ov cur madds)) = core cur @ core (concat madds)"
proof (induction madds arbitrary: cur)
  case Nil
  then show ?case by (simp add: core_m_strip core_m_strip_Nil)
next
  case (Cons madd rest)
  show ?case
  proof (cases "int (length cur) + int (length madd) \<le> cs")
    case True
    then show ?thesis using Cons.IH[of "cur @ madd"] by simp
  next
    case False
    have "core (concat (if cur \<noteq> [] then [m_strip cur] else [])) = core cur"
      by (simp add: core_m_strip)
    then show ?thesis
      using False Cons.IH[of "m_overlap_start ov cur @ madd"]
      by (simp add: core_m_overlap_start)
  qed
qed

lemma core_m_split_chunk: "core (concat (m_split_chunk cs ov sep c)) = core c"
  by (simp add: m_split_chunk_def core_m_pack concat_m_pieces core_m_words)

lemma core_m_level: "core (concat (m_level cs ov chunks sep)) = core (concat chunks)"
  by (induction chunks) (simp_all add: m_level_def core_m_split_chunk)

lemma core_foldl_level:
  "core (concat (foldl (m_level cs ov) chunks seps)) = core (concat chunks)"
  by (induction seps arbitrary: chunks) (simp_all add: core_m_level)

lemma core_filter: "core (concat (filter (\<lambda>c. m_strip c \<noteq> []) chunks)) = core (concat chunks)"
  by (induction chunks) (simp_all add: core_m_strip_Nil)

lemma core_m_chunk_text: "core (concat (m_chunk_text s cs ov)) = core s"
  by (simp add: m_chunk_text_def core_filter core_foldl_level core_m_strip_Nil)

lemma core_unmarked: "core (unmarked s) = filter (\<lambda>c. \<not> is_space c) s"
  by (induction s) (simp_all add: unmarked_def core_Cons)

text \<open>
  Claim C2. The chunker is a total function: its loops run over finite lists, and the
  definitions above were accepted with their termination proofs, for every text,
  \<open>chunk_size\<close> and \<open>overlap\<close>. The marked chunker returns the chunks of the chunker, and
  in the concatenation of these chunks the characters that are not copies made by overlap
  seeding and are not whitespace are exactly the characters of the input that are not
  whitespace, each once and in the order of the input.
\<close>

theorem chunks_keep_text:
  "map plain (m_chunk_text (unmarked text) chunk_size overlap) = chunk_text text chunk_size overlap \<and>
   core (concat (m_chunk_text (unmarked text) chunk_size overlap)) = filter (\<lambda>c. \<not> is_space c) text"
  by (simp add: plain_m_chunk_text core_m_chunk_text core_unmarked)

section \<open>Properties of prompt assembly and retrieval\<close>

text \<open>
  Claim C9. For every question \<open>q\<close>, the prompt built for an empty list of chunks
  contains the words \<open>general knowledge\<close> and ends with \<open>Question: \<close> followed by \<open>q\<close>.
\<close>

theorem build_prompt_empty:
  "sublist ''general knowledge'' (build_prompt q []) \<and>
   suffix (''Question: '' @ q) (build_prompt q [])"
proof
  have "build_prompt q [] =
    ''No relevant documents were found. Answer based on your '' @ ''general knowledge'' @
    ('' and say you have no document context.\<newline>\<newline>Question: '' @ q)"
    by (simp add: build_prompt_def)
  then show "sublist ''general knowledge'' (build_prompt q [])"
    unfolding sublist_def by blast
  have "build_prompt q [] =
    ''No relevant documents were found. Answer based on your general knowledge and say you have no document context.\<newline>\<newline>'' @ (''Question: '' @ q)"
    by (simp add: build_prompt_def)
  then show "suffix (''Question: '' @ q) (build_prompt q [])"
    unfolding suffix_def by blast
qed

text \<open>
  Claim C8. When the store counts zero chunks, \<^verbatim>\<open>retrieve\<close> returns the empty list and
  never calls the query. Otherwise (the count is not zero, so positive) it calls the query
  once, asking for \<open>min top_k count\<close> results, and returns the texts, metadata and
  distances of the answer as triples, in the order of the answer.
\<close>

theorem retrieve_empty_or_query:
  "(count coll = 0 \<longrightarrow> retrieve coll question top_k = ([], [])) \<and>
   (count coll \<noteq> 0 \<longrightarrow>
      snd (retrieve coll question top_k) = [(question, min top_k (count coll))] \<and>
      (\<forall>docs metas dists.
         query coll question (min top_k (count coll))
           = \<lparr>documents = Some docs, metadatas = Some metas, distances = Some dists\<rparr> \<longrightarrow>
         fst (retrieve coll question top_k) = zip docs (zip metas dists)))"
  by (simp add: retrieve_def Let_def zip3_def)

theorem retrieve_empty_or_query_witness:
  "count empty_store = 0 \<and> retrieve empty_store ''q'' 5 = ([], []) \<and>
   count small_store \<noteq> 0 \<and> snd (retrieve small_store ''q'' 2) = [(''q'', 2)] \<and>
   map fst (fst (retrieve small_store ''q'' 2)) = [''one'', ''two''] \<and>
   map (snd \<circ> snd) (fst (retrieve small_store ''q'' 2)) = [1, 2]"
proof -
  have e: "count empty_store = 0" by (simp add: empty_store_def)
  have s: "count small_store = 3" by (simp add: small_store_def)
  have q: "query small_store ''q'' (min 2 (count small_store)) =
    \<lparr>documents = Some [''one'', ''two''],
     metadatas = Some [[''source'' \<mapsto> PStr ''a.txt''], Map.empty],
     distances = Some [1, 2]\<rparr>"
    by (simp add: small_store_def numeral_2_eq_2)
  show ?thesis
    using e s q retrieve_empty_or_query[of empty_store "''q''" 5]
      retrieve_empty_or_query[of small_store "''q''" 2]
    by simp
qed

section \<open>Properties of ingestion\<close>

subsection \<open>The accumulators hold the rows of the documents\<close>

lemma number_rows_Nil [simp]: "number_rows d k [] = []"
  by (simp add: number_rows_def)

lemma number_rows_Cons:
  "number_rows d k ((c, m) # ps) = (d k, c, m) # number_rows d (Suc k) ps"
  by (simp add: number_rows_def)

lemma number_rows_append:
  "number_rows d k (ps @ qs) = number_rows d k ps @ number_rows d (k + length ps) qs"
  by (simp add: number_rows_def enumerate_append_eq)

lemma add_chunks_rows:
  "aligned acc \<Longrightarrow>
   add_chunks d m cs (idx, acc) = (idx', acc') \<Longrightarrow>
   aligned acc' \<and> idx' = idx + length cs \<and> errors acc' = errors acc \<and>
   rows acc' = rows acc @ number_rows d idx (map (\<lambda>c. (c, m)) cs)"
proof (induction cs arbitrary: idx acc)
  case Nil
  then show ?case by simp
next
  case (Cons c cs)
  let ?acc1 = "acc\<lparr>all_ids := all_ids acc @ [d idx],
                      all_chunks := all_chunks acc @ [c],
                      all_metadatas := all_metadatas acc @ [m]\<rparr>"
  have a1: "aligned ?acc1" using Cons.prems(1) by (simp add: aligned_def)
  have r1: "rows ?acc1 = rows acc @ [(d idx, c, m)]"
    using Cons.prems(1) by (simp add: rows_def zip3_def aligned_def)
  have "add_chunks d m cs (idx + 1, ?acc1) = (idx', acc')"
    using Cons.prems(2) by simp
  from Cons.IH[OF a1 this] show ?case
    using r1 by (simp add: number_rows_Cons)
qed

lemma add_items_rows:
  "aligned acc \<Longrightarrow>
   add_items e d ov items (idx, acc) = (idx', acc') \<Longrightarrow>
   aligned acc' \<and> errors acc' = errors acc \<and>
   rows acc' = rows acc @ number_rows d idx (unit_chunks e ov items)"
proof (induction items arbitrary: idx acc)
  case Nil
  then show ?case by (simp add: unit_chunks_def)
next
  case (Cons it items)
  obtain t meta where it: "it = (t, meta)" by (cases it)
  let ?cs = "chunk_text t (CHUNK_SIZE e) (CHUNK_OVERLAP e)"
  obtain idx1 acc1 where s1: "add_chunks d (ov meta) ?cs (idx, acc) = (idx1, acc1)"
    by (cases "add_chunks d (ov meta) ?cs (idx, acc)")
  from add_chunks_rows[OF Cons.prems(1) s1]
  have a1: "aligned acc1" and i1: "idx1 = idx + length ?cs" and e1: "errors acc1 = errors acc"
    and r1: "rows acc1 = rows acc @ number_rows d idx (map (\<lambda>c. (c, ov meta)) ?cs)"
    by simp_all
  have "add_items e d ov items (idx1, acc1) = (idx', acc')"
    using Cons.prems(2) it s1 by simp
  from Cons.IH[OF a1 this] have a2: "aligned acc'" and e2: "errors acc' = errors acc1"
    and r2: "rows acc' = rows acc1 @ number_rows d idx1 (unit_chunks e ov items)"
    by simp_all
  have u: "unit_chunks e ov (it # items) = map (\<lambda>c. (c, ov meta)) ?cs @ unit_chunks e ov items"
    by (simp add: unit_chunks_def it)
  show ?case using a2 e2 e1 r2 r1 i1 by (simp add: u number_rows_append)
qed

lemma add_items_document_rows:
  "aligned acc \<Longrightarrow>
   aligned (snd (add_items e d ov items (0, acc))) \<and>
   rows (snd (add_items e d ov items (0, acc))) = rows acc @ document_rows e d ov items"
  using add_items_rows[of acc e d ov items 0]
  by (cases "add_items e d ov items (0, acc)") (simp add: document_rows_def)

lemma document_rows_Nil [simp]: "document_rows e d ov [] = []"
  by (simp add: document_rows_def unit_chunks_def)

lemma aligned_errors [simp]: "aligned (acc\<lparr>errors := x\<rparr>) = aligned acc"
  by (simp add: aligned_def)

lemma rows_errors [simp]: "rows (acc\<lparr>errors := x\<rparr>) = rows acc"
  by (simp add: rows_def)

lemma add_file_rows:
  "aligned acc \<Longrightarrow> add_file e f acc = Inr acc' \<Longrightarrow>
   aligned acc' \<and> rows acc' = rows acc @ file_rows e f"
  using add_items_document_rows[of acc e "\<lambda>idx. path_stem f @ ''_'' @ str_nat idx" "\<lambda>m. m"]
  by (auto simp: add_file_def file_rows_def split: sum.splits if_splits)


lemma add_folder_rows:
  "aligned acc \<Longrightarrow> add_folder e fls acc = Inr acc' \<Longrightarrow>
   aligned acc' \<and>
   rows acc' = rows acc @ concat (map (file_rows e)
     (filter (\<lambda>f. is_file e f \<and> lower (path_suffix f) \<in> set [''.pdf'', ''.txt'', ''.md'', ''.text'']) fls))"
proof (induction fls arbitrary: acc)
  case Nil
  then show ?case by simp
next
  case (Cons f fls)
  show ?case
  proof (cases "is_file e f \<and> lower (path_suffix f) \<in> set [''.pdf'', ''.txt'', ''.md'', ''.text'']")
    case True
    then obtain acc1 where s1: "add_file e f acc = Inr acc1"
      and s2: "add_folder e fls acc1 = Inr acc'"
      using Cons.prems(2) by (cases "add_file e f acc") auto
    from add_file_rows[OF Cons.prems(1) s1] Cons.IH[OF _ s2] True show ?thesis by simp
  next
    case False
    then have "add_folder e fls acc = Inr acc'" using Cons.prems(2) by auto
    from Cons.IH[OF Cons.prems(1) this] False show ?thesis by auto
  qed
qed

lemma visited_files_Cons:
  "visited_files e (p0 # ps) =
     (let p = resolve e p0 in
      if \<not> exists e p then []
      else if is_file e p then [p]
      else filter (\<lambda>f. is_file e f \<and> lower (path_suffix f) \<in> set [''.pdf'', ''.txt'', ''.md'', ''.text''])
             (rglob e p)) @ visited_files e ps"
  by (simp add: visited_files_def)

lemma add_paths_rows:
  "aligned acc \<Longrightarrow> add_paths e ps acc = Inr acc' \<Longrightarrow>
   aligned acc' \<and> rows acc' = rows acc @ concat (map (file_rows e) (visited_files e ps))"
proof (induction ps arbitrary: acc)
  case Nil
  then show ?case by (simp add: visited_files_def)
next
  case (Cons p0 ps)
  let ?p = "resolve e p0"
  consider (absent) "\<not> exists e ?p" | (regular) "exists e ?p" "is_file e ?p"
    | (directory) "exists e ?p" "\<not> is_file e ?p" by blast
  then show ?case
  proof cases
    case absent
    then have "add_paths e ps (acc\<lparr>errors := errors acc @ [''Not found: '' @ ?p]\<rparr>) = Inr acc'"
      using Cons.prems(2) by (simp add: Let_def)
    from Cons.IH[OF _ this] Cons.prems(1) absent show ?thesis
      by (simp add: visited_files_Cons)
  next
    case regular
    then obtain acc1 where s1: "add_file e ?p acc = Inr acc1"
      and s2: "add_paths e ps acc1 = Inr acc'"
      using Cons.prems(2) by (cases "add_file e ?p acc") (auto simp: Let_def)
    from add_file_rows[OF Cons.prems(1) s1] Cons.IH[OF _ s2] regular show ?thesis
      by (simp add: visited_files_Cons)
  next
    case directory
    then obtain acc1 where s1: "add_folder e (rglob e ?p) acc = Inr acc1"
      and s2: "add_paths e ps acc1 = Inr acc'"
      using Cons.prems(2) by (cases "add_folder e (rglob e ?p) acc") (auto simp: Let_def)
    from add_folder_rows[OF Cons.prems(1) s1] Cons.IH[OF _ s2] directory show ?thesis
      by (simp add: visited_files_Cons)
  qed
qed

lemma add_uploads_rows:
  "aligned acc \<Longrightarrow>
   aligned (add_uploads e us acc) \<and>
   rows (add_uploads e us acc) = rows acc @ concat (map (upload_rows e) us)"
proof (induction us arbitrary: acc)
  case Nil
  then show ?case by simp
next
  case (Cons u us)
  obtain name raw ext display_name where u: "u = ((name, raw, ext), display_name)"
    by (cases u) auto
  let ?tmp = "tmp_name e (if ext = [] then ''.txt'' else ext)"
  let ?e' = "e\<lparr>fs := (fs e)(?tmp \<mapsto> File (obj_data raw))\<rparr>"
  let ?d = "\<lambda>idx. path_stem display_name @ ''_'' @ str_nat idx @ ''_'' @ str_nat (obj_id raw)"
  let ?ov = "\<lambda>m::metadata. m(''source'' \<mapsto> PStr display_name)"
  show ?case
  proof (cases "load_document ?e' ?tmp")
    case (Inl x)
    obtain msg where "x = Exn msg" by (cases x)
    with Inl have
      "add_uploads e (u # us) acc
         = add_uploads e us (acc\<lparr>errors := errors acc @ [display_name @ '': '' @ msg]\<rparr>)"
      and "upload_rows e u = []"
      by (simp_all add: u upload_rows_def Let_def)
    then show ?thesis using Cons.IH[of "acc\<lparr>errors := errors acc @ [display_name @ '': '' @ msg]\<rparr>"]
      Cons.prems by simp
  next
    case (Inr items)
    show ?thesis
    proof (cases "items = []")
      case True
      with Inr have
        "add_uploads e (u # us) acc
           = add_uploads e us (acc\<lparr>errors := errors acc @ [''Empty or unreadable: '' @ display_name]\<rparr>)"
        and "upload_rows e u = []"
        by (simp_all add: u upload_rows_def Let_def)
      then show ?thesis
        using Cons.IH[of "acc\<lparr>errors := errors acc @ [''Empty or unreadable: '' @ display_name]\<rparr>"]
          Cons.prems by simp
    next
      case False
      let ?acc1 = "snd (add_items e ?d ?ov items (0, acc))"
      from False Inr have "add_uploads e (u # us) acc = add_uploads e us ?acc1"
        and "upload_rows e u = document_rows e ?d ?ov items"
        by (simp_all add: u upload_rows_def Let_def)
      then show ?thesis
        using Cons.IH[of ?acc1] add_items_document_rows[OF Cons.prems, of e ?d ?ov items]
        by simp
    qed
  qed
qed

lemma aligned_empty: "aligned empty_accum" "rows empty_accum = []"
  by (simp_all add: aligned_def rows_def empty_accum_def zip3_def)


lemma ingest_paths_rows:
  assumes "add_paths e paths empty_accum = Inr acc"
  shows "aligned acc" "rows acc = concat (map (file_rows e) (visited_files e paths))"
  using add_paths_rows[OF aligned_empty(1) assms] by (simp_all add: aligned_empty(2))

lemma ingest_memory_rows:
  "aligned (add_uploads e us empty_accum)"
  "rows (add_uploads e us empty_accum) = concat (map (upload_rows e) us)"
  using add_uploads_rows[OF aligned_empty(1), of e us] by (simp_all add: aligned_empty(2))

subsection \<open>Identifiers\<close>

text \<open>
  Claim C6. The identifiers of one ingestion are meant to be pairwise distinct. An
  identifier of \<^verbatim>\<open>ingest_paths\<close> is the stem of the file name and the index of the
  chunk within the file, and nothing else: the files \<open>a.txt\<close> and \<open>a.md\<close> of one folder
  both give \<open>a_0\<close>, and the insert receives the same identifier twice.
\<close>

theorem same_stem_same_id:
  "map fst (snd (ingest_paths folder_env [''/d''])) = [[''a_0'', ''a_0'']]"
  by code_simp

subsection \<open>One insert for each ingestion\<close>



subsection \<open>The arguments of the insert\<close>

text \<open>
  Claim C10. In every ingestion that reaches the insert, the identifiers, the texts and
  the metadata handed over have the same length, the three at one position belong to one
  chunk of one text unit (they are the rows of the documents, in order), and the number of
  chunks returned is that length.
\<close>

theorem insert_arguments_aligned:
  "((ids, docs, metas) \<in> set (snd (ingest_paths e paths)) \<longrightarrow>
      length ids = length docs \<and> length docs = length metas \<and>
      zip3 ids docs metas = concat (map (file_rows e) (visited_files e paths)) \<and>
      (\<exists>errs. fst (ingest_paths e paths) = Inr (length ids, errs))) \<and>
   ((ids, docs, metas) \<in> set (snd (ingest_files_in_memory e file_contents filenames)) \<longrightarrow>
      length ids = length docs \<and> length docs = length metas \<and>
      zip3 ids docs metas = concat (map (upload_rows e) (zip file_contents filenames)) \<and>
      fst (fst (ingest_files_in_memory e file_contents filenames)) = length ids)"
proof
  show "(ids, docs, metas) \<in> set (snd (ingest_paths e paths)) \<longrightarrow>
      length ids = length docs \<and> length docs = length metas \<and>
      zip3 ids docs metas = concat (map (file_rows e) (visited_files e paths)) \<and>
      (\<exists>errs. fst (ingest_paths e paths) = Inr (length ids, errs))"
  proof (cases "add_paths e paths empty_accum")
    case (Inl x)
    then show ?thesis by (simp add: ingest_paths_def)
  next
    case (Inr acc)
    show ?thesis
      using ingest_paths_rows[OF Inr] Inr
      by (auto simp: ingest_paths_def rows_def aligned_def split: if_splits)
  qed
  let ?acc = "add_uploads e (zip file_contents filenames) empty_accum"
  show "(ids, docs, metas) \<in> set (snd (ingest_files_in_memory e file_contents filenames)) \<longrightarrow>
      length ids = length docs \<and> length docs = length metas \<and>
      zip3 ids docs metas = concat (map (upload_rows e) (zip file_contents filenames)) \<and>
      fst (fst (ingest_files_in_memory e file_contents filenames)) = length ids"
    using ingest_memory_rows[of e "zip file_contents filenames"]
    by (auto simp: ingest_files_in_memory_def Let_def rows_def aligned_def split: if_splits)
qed

theorem insert_arguments_aligned_witness:
  "hd (snd (ingest_paths folder_env [''/d''])) \<in> set (snd (ingest_paths folder_env [''/d''])) \<and>
   fst (hd (snd (ingest_paths folder_env [''/d'']))) = [''a_0'', ''a_0''] \<and>
   length (fst (snd (hd (snd (ingest_paths folder_env [''/d''])))))  = 2 \<and>
   length (snd (snd (hd (snd (ingest_paths folder_env [''/d''])))))  = 2 \<and>
   hd (snd (ingest_files_in_memory folder_env one_upload [''notes.txt'']))
     \<in> set (snd (ingest_files_in_memory folder_env one_upload [''notes.txt''])) \<and>
   fst (hd (snd (ingest_files_in_memory folder_env one_upload [''notes.txt'']))) = [''notes_0_77''] \<and>
   length (snd (snd (hd (snd (ingest_files_in_memory folder_env one_upload [''notes.txt'']))))) = 1 \<and>
   fst (fst (ingest_files_in_memory folder_env one_upload [''notes.txt''])) = 1"
proof -
  let ?p = "snd (ingest_paths folder_env [''/d''])"
  let ?m = "snd (ingest_files_in_memory folder_env one_upload [''notes.txt''])"
  have lp: "length ?p = 1" by code_simp
  have lm: "length ?m = 1" by code_simp
  have ip: "fst (hd ?p) = [''a_0'', ''a_0'']" by code_simp
  have im: "fst (hd ?m) = [''notes_0_77'']" by code_simp
  have hp: "hd ?p \<in> set ?p" using lp by (cases ?p) simp_all
  have hm: "hd ?m \<in> set ?m" using lm by (cases ?m) simp_all
  have hp': "(fst (hd ?p), fst (snd (hd ?p)), snd (snd (hd ?p))) \<in> set ?p" using hp by simp
  have hm': "(fst (hd ?m), fst (snd (hd ?m)), snd (snd (hd ?m))) \<in> set ?m" using hm by simp
  show ?thesis
    using hp hm hp' hm' ip im
      insert_arguments_aligned[of "fst (hd ?p)" "fst (snd (hd ?p))" "snd (snd (hd ?p))"
        folder_env "[''/d'']" one_upload "[''notes.txt'']"]
      insert_arguments_aligned[of "fst (hd ?m)" "fst (snd (hd ?m))" "snd (snd (hd ?m))"
        folder_env "[''/d'']" one_upload "[''notes.txt'']"]
    by simp
qed

end
